theory Spec2Isabelle
  imports Complex_Main
begin

section \<open>Values and errors\<close>

text \<open>
  The module cmfpy.nlmetric works on numpy arrays of 64-bit floats. A float is modelled
  as either not-a-number or a real number: rounding and the two infinities are outside
  the model. Timestamps (datetime objects, or their unix seconds) are real numbers of
  seconds.
\<close>

datatype fval = NaN | Fin real

datatype error = IndexError | ValueError | TypeError

fun isnan :: "fval \<Rightarrow> bool" where
  "isnan NaN = True"
| "isnan (Fin x) = False"

text \<open>np.sign: -1, 0 or +1, and NaN for NaN.\<close>

fun np_sign :: "fval \<Rightarrow> fval" where
  "np_sign NaN = NaN"
| "np_sign (Fin x) = Fin (sgn x)"

text \<open>Float multiplication: NaN as soon as one operand is NaN.\<close>

fun fmul :: "fval \<Rightarrow> fval \<Rightarrow> fval" where
  "fmul (Fin a) (Fin b) = Fin (a * b)"
| "fmul _ _ = NaN"

text \<open>Multiplication by -1, as in \<^verbatim>\<open>br_medians *= -1\<close>.\<close>

fun fneg :: "fval \<Rightarrow> fval" where
  "fneg NaN = NaN"
| "fneg (Fin x) = Fin (- x)"

section \<open>scipy.interpolate.interp1d, linear\<close>

text \<open>
  The library call \<^verbatim>\<open>interp1d(x, y, bounds_error=False, fill_value=f)(x_new)\<close>
  with the default linear kind. The constructor refuses arrays of different lengths and
  an empty array, and sorts the points by x (a stable sort). A lookup below the first
  or above the last x gives the fill value. Inside the range the value at a node is
  the node's y, and between two nodes the straight line through them, NaN when one of
  the two y is NaN.
\<close>

fun lin :: "real \<times> fval \<Rightarrow> real \<times> fval \<Rightarrow> real \<Rightarrow> fval" where
  "lin (x0, Fin y0) (x1, Fin y1) t = Fin ((y1 - y0) / (x1 - x0) * (t - x0) + y0)"
| "lin _ _ t = NaN"

fun interp_in :: "(real \<times> fval) list \<Rightarrow> real \<Rightarrow> fval" where
  "interp_in [] t = NaN"
| "interp_in [p] t = snd p"
| "interp_in (p # q # ps) t =
     (if t < fst q then (if t = fst p then snd p else lin p q t)
      else interp_in (q # ps) t)"

definition interp_at :: "(real \<times> fval) list \<Rightarrow> fval \<Rightarrow> real \<Rightarrow> fval" where
  "interp_at pts fill t =
     (if t < fst (hd pts) \<or> fst (last pts) < t then fill else interp_in pts t)"

definition interp1d :: "real list \<Rightarrow> fval list \<Rightarrow> fval \<Rightarrow> real list \<Rightarrow> error + fval list" where
  "interp1d x y fill x_new =
     (if length x \<noteq> length y \<or> x = [] then Inl ValueError
      else Inr (map (interp_at (sort_key fst (zip x y)) fill) x_new))"

section \<open>The scorer\<close>

text \<open>A time series is the pair (timestamps, values) the source passes around.\<close>

type_synonym tseries = "real list \<times> fval list"

text \<open>
  The elementwise product of two one-dimensional arrays: equal lengths multiply
  pointwise, an array of length one is broadcast, any other pair of lengths raises
  ValueError.
\<close>

definition np_mul :: "fval list \<Rightarrow> fval list \<Rightarrow> error + fval list" where
  "np_mul a b =
     (if length a = length b then Inr (map2 fmul a b)
      else if length a = 1 then Inr (map (fmul (hd a)) b)
      else if length b = 1 then Inr (map (\<lambda>v. fmul v (hd b)) a)
      else Inl ValueError)"

text \<open>np.nansum: the sum with every NaN counted as zero.\<close>

definition nansum :: "fval list \<Rightarrow> real" where
  "nansum vs = sum_list (map (\<lambda>v. case v of NaN \<Rightarrow> 0 | Fin x \<Rightarrow> x) vs)"

text \<open>
  The quotient \<^verbatim>\<open>np.nansum(mult[mult == 1])/len(~np.isnan(mult))\<close>. The mask
  \<^verbatim>\<open>~np.isnan(mult)\<close> is an array as long as \<^verbatim>\<open>mult\<close>, and \<^verbatim>\<open>len\<close> of
  it is that length. A zero length makes the numerator zero too, and numpy's 0.0/0 is
  NaN.
\<close>

definition nl_quotient :: "fval list \<Rightarrow> fval" where
  "nl_quotient mult =
     (let num = nansum (filter (\<lambda>v. v = Fin 1) mult);
          den = length (map (\<lambda>v. \<not> isnan v) mult)
      in if den = 0 then NaN else Fin (num / real den))"

text \<open>
  Lines 179 to 186 of compute_NL_metric: the observed polarity that enters the product.
  The sign is taken first. The three comparisons of the condition are joined by the
  non-short-circuit \<^verbatim>\<open>|\<close>, so both first and both last timestamps are read, and an
  empty timestamp array raises IndexError. When the two timestamp arrays differ in
  length, in first or in last element, the signed values are interpolated onto the
  model's timestamps.
\<close>

definition obs_pol_aligned :: "real list \<Rightarrow> tseries \<Rightarrow> error + fval list" where
  "obs_pol_aligned model_tstamps obs_tseries =
     (let obs_tstamps = fst obs_tseries;
          obs_pol = map np_sign (snd obs_tseries)
      in if model_tstamps = [] \<or> obs_tstamps = [] then Inl IndexError
         else if length model_tstamps \<noteq> length obs_tstamps
            \<or> hd model_tstamps \<noteq> hd obs_tstamps
            \<or> last model_tstamps \<noteq> last obs_tstamps
         then interp1d obs_tstamps obs_pol NaN model_tstamps
         else Inr obs_pol)"

text \<open>compute_NL_metric: the product with the model's polarity and the quotient.\<close>

definition compute_NL_metric :: "tseries \<Rightarrow> tseries \<Rightarrow> error + fval" where
  "compute_NL_metric model_tseries obs_tseries =
     (let model_tstamps = fst model_tseries;
          model_pol = map np_sign (snd model_tseries)
      in case obs_pol_aligned model_tstamps obs_tseries of
           Inl e \<Rightarrow> Inl e
         | Inr obs_pol \<Rightarrow>
             (case np_mul obs_pol model_pol of
                Inl e \<Rightarrow> Inl e
              | Inr mult \<Rightarrow> Inr (nl_quotient mult)))"

text \<open>
  The two readings of the specification that the scorer is compared with: the score
  as the number of products equal to one over the number of products that are not NaN,
  and the observed series interpolated on its raw values with the sign taken after.
\<close>

definition spec_score :: "fval list \<Rightarrow> fval" where
  "spec_score mult =
     (let num = length (filter (\<lambda>v. v = Fin 1) mult);
          den = length (filter (\<lambda>v. \<not> isnan v) mult)
      in if den = 0 then NaN else Fin (real num / real den))"

definition spec_obs_pol_resampled :: "real list \<Rightarrow> tseries \<Rightarrow> error + fval list" where
  "spec_obs_pol_resampled model_tstamps obs_tseries =
     (case interp1d (fst obs_tseries) (snd obs_tseries) NaN model_tstamps of
        Inl e \<Rightarrow> Inl e
      | Inr v \<Rightarrow> Inr (map np_sign v))"

section \<open>The collaborators\<close>

text \<open>
  The downloaded \<^verbatim>\<open>'y'\<close> array is one-dimensional (a scalar component per sample)
  or two-dimensional (a row of components per sample).
\<close>

datatype ndarray = Arr1 "fval list" | Arr2 "fval list list"

text \<open>
  The functions of cmfpy.utils, cmfpy.projection and cmfpy.io that the module calls are
  parameters of the model: gen_dt_arr (start, end, cadence in days) gives the array of
  timestamps, carrington_lon the longitude in degrees of a body at a time
  (create_carrington_trajectory, one position per timestamp), and the two downloads
  give the \<^verbatim>\<open>'x'\<close> and \<^verbatim>\<open>'y'\<close> arrays of the first variable for an interval and a
  body.
\<close>

record collaborators =
  gen_dt_arr :: "real \<Rightarrow> real \<Rightarrow> real \<Rightarrow> real list"
  carrington_lon :: "string \<Rightarrow> real \<Rightarrow> real"
  download_br_data :: "real list \<Rightarrow> string \<Rightarrow> real list \<times> ndarray"
  download_vr_data :: "real list \<Rightarrow> string \<Rightarrow> real list \<times> ndarray"

text \<open>
  Modelled from the spec: gen_dt_arr of cmfpy.utils is not among the sources. The grid
  starts at the first timestamp and advances by the cadence while it is before the
  end; it is used for the concrete runs only.
\<close>

definition grid :: "real \<Rightarrow> real \<Rightarrow> real \<Rightarrow> real list" where
  "grid dt_init dt_final cadence_days =
     map (\<lambda>k. dt_init + real k * (cadence_days * 86400))
       [0 ..< nat \<lceil>(dt_final - dt_init) / (cadence_days * 86400)\<rceil>]"

section \<open>The interval resolver\<close>

text \<open>Python's \<^verbatim>\<open>%\<close> on floats with a positive modulus.\<close>

definition py_mod :: "real \<Rightarrow> real \<Rightarrow> real" where
  "py_mod a m = a - m * of_int \<lfloor>a / m\<rfloor>"

text \<open>
  Line 25: \<^verbatim>\<open>(inst_body_position.lon.value + 180 % 360)\<close>. The operator \<^verbatim>\<open>%\<close>
  binds tighter than \<^verbatim>\<open>+\<close>, so the modulus is taken of the integer 180 alone.
\<close>

definition inst_antipode :: "real \<Rightarrow> real" where
  "inst_antipode inst_lon = inst_lon + real_of_int (180 mod 360)"

fun np_diff :: "real list \<Rightarrow> real list" where
  "np_diff (a # b # xs) = (b - a) # np_diff (b # xs)"
| "np_diff _ = []"

text \<open>
  Lines 34 to 36: the indices, shifted by one, where the difference of consecutive
  values of \<^verbatim>\<open>(lon - inst_antipode) % 360\<close> is greater than 180.
\<close>

definition lon_rel :: "real list \<Rightarrow> real \<Rightarrow> real list" where
  "lon_rel lons antipode = map (\<lambda>l. py_mod (l - antipode) 360) lons"

definition carr_inds :: "real list \<Rightarrow> real \<Rightarrow> nat list" where
  "carr_inds lons antipode =
     (let d = np_diff (lon_rel lons antipode)
      in map Suc (filter (\<lambda>i. 180 < d ! i) [0 ..< length d]))"

text \<open>Indexing an array with an array of indices; an index out of range raises.\<close>

definition np_take :: "'a list \<Rightarrow> nat list \<Rightarrow> error + 'a list" where
  "np_take xs inds =
     (if \<forall>i \<in> set inds. i < length xs then Inr (map (\<lambda>i. xs ! i) inds)
      else Inl IndexError)"

definition determine_carrington_interval ::
  "'z collaborators_scheme \<Rightarrow> real \<Rightarrow> string \<Rightarrow> error + real list" where
  "determine_carrington_interval c center_date body =
     (let inst_lon = carrington_lon c body center_date;
          antipode = inst_antipode inst_lon;
          two_month_window =
            gen_dt_arr c (center_date - 30 * 86400) (center_date + 30 * 86400) (6 / 24);
          two_month_trajectory = map (carrington_lon c body) two_month_window
      in np_take two_month_window (carr_inds two_month_trajectory antipode))"

text \<open>
  Two bodies for concrete runs on the grid above: one that drifts by five degrees a day
  and stays clear of the antipode for the whole window, and one that drifts by 13.2
  degrees a day, as the Earth and L1 do. For the second the field download holds four
  samples in the first two hours and ten minutes after the instant - 1166400, of
  values 5, 5, 3 and 3.
\<close>

definition slow_body :: collaborators where
  "slow_body = \<lparr> gen_dt_arr = grid,
                 carrington_lon = (\<lambda>body t. 180 - t / 17280),
                 download_br_data = (\<lambda>interval body. ([], Arr1 [])),
                 download_vr_data = (\<lambda>interval body. ([], Arr1 [])) \<rparr>"

definition earth_like :: collaborators where
  "earth_like = \<lparr> gen_dt_arr = grid,
                  carrington_lon = (\<lambda>body t. py_mod (180 - t * 11 / 72000) 360),
                  download_br_data =
                    (\<lambda>interval body.
                       ([- 1166400, - 1165800, - 1162200, - 1158600],
                        Arr1 [Fin 5, Fin 5, Fin 3, Fin 3])),
                  download_vr_data = (\<lambda>interval body. ([], Arr1 [])) \<rparr>"

section \<open>The hourly reducer\<close>

text \<open>
  \<^verbatim>\<open>np.where(timestamps > te)[0][0]\<close>: the first index above the edge, IndexError
  when there is none.
\<close>

definition first_index_gt :: "real list \<Rightarrow> real \<Rightarrow> error + nat" where
  "first_index_gt timestamps te =
     (case filter (\<lambda>i. te < timestamps ! i) [0 ..< length timestamps] of
        [] \<Rightarrow> Inl IndexError
      | i # _ \<Rightarrow> Inr i)"

text \<open>The list comprehension of line 51: the first edge that raises ends it.\<close>

fun argsplit_of :: "real list \<Rightarrow> real list \<Rightarrow> error + nat list" where
  "argsplit_of timestamps [] = Inr []"
| "argsplit_of timestamps (te # tes) =
     (case first_index_gt timestamps te of
        Inl e \<Rightarrow> Inl e
      | Inr i \<Rightarrow>
          (case argsplit_of timestamps tes of
             Inl e \<Rightarrow> Inl e
           | Inr is \<Rightarrow> Inr (i # is)))"

text \<open>
  np.split at a list of indices: the slices \<^verbatim>\<open>a[0:i1], a[i1:i2], ..., a[ik:]\<close>, a
  slice whose end is not after its start being empty.
\<close>

fun split_from :: "nat \<Rightarrow> 'a list \<Rightarrow> nat list \<Rightarrow> 'a list list" where
  "split_from st xs [] = [drop st xs]"
| "split_from st xs (e # es) = take (e - st) (drop st xs) # split_from e xs es"

fun np_split :: "ndarray \<Rightarrow> nat list \<Rightarrow> ndarray list" where
  "np_split (Arr1 xs) inds = map Arr1 (split_from 0 xs inds)"
| "np_split (Arr2 rows) inds = map Arr2 (split_from 0 rows inds)"

text \<open>The entries of an array, flattened.\<close>

fun entries :: "ndarray \<Rightarrow> fval list" where
  "entries (Arr1 xs) = xs"
| "entries (Arr2 rows) = concat rows"

text \<open>The numbers among the entries, NaN dropped.\<close>

fun valid :: "fval list \<Rightarrow> real list" where
  "valid [] = []"
| "valid (NaN # vs) = valid vs"
| "valid (Fin x # vs) = x # valid vs"

text \<open>
  np.nanmedian over the flattened array: the median of the entries that are not NaN,
  and NaN when there is none (an empty or an all-NaN slice).
\<close>

definition nanmedian :: "ndarray \<Rightarrow> fval" where
  "nanmedian a =
     (let s = sort (valid (entries a)); n = length s
      in if n = 0 then NaN
         else if odd n then Fin (s ! (n div 2))
         else Fin ((s ! (n div 2 - 1) + s ! (n div 2)) / 2))"



text \<open>
  make_hourly_medians. \<^verbatim>\<open>datetimes[0]\<close> raises on an empty array; the edges are
  \<^verbatim>\<open>datetime_hourly[1:-1]\<close> and the returned times \<^verbatim>\<open>datetime_hourly[:-1]\<close>
  shifted by half an hour.
\<close>

definition make_hourly_medians ::
  "'z collaborators_scheme \<Rightarrow> real list \<Rightarrow> ndarray \<Rightarrow> error + (real list \<times> fval list)" where
  "make_hourly_medians c datetimes data =
     (if datetimes = [] then Inl IndexError
      else
        (let timestamps = datetimes;
             datetime_hourly = gen_dt_arr c (hd datetimes) (last datetimes) (1 / 24);
             ts_edges = butlast (tl datetime_hourly)
         in case argsplit_of timestamps ts_edges of
              Inl e \<Rightarrow> Inl e
            | Inr argsplit \<Rightarrow>
                (let data_split = np_split data argsplit;
                     medians = map nanmedian data_split
                 in Inr (map (\<lambda>t. t + 1800) (butlast datetime_hourly), medians))))"

section \<open>The observed-series builder\<close>

text \<open>\<^verbatim>\<open>y[:,0]\<close>: the first column of a two-dimensional array.\<close>

fun first_column :: "ndarray \<Rightarrow> error + ndarray" where
  "first_column (Arr1 xs) = Inl IndexError"
| "first_column (Arr2 rows) =
     (if \<exists>r \<in> set rows. r = [] then Inl IndexError else Inr (Arr1 (map hd rows)))"

text \<open>
  Lines 81 to 93: the hourly medians of the downloaded field, negated for the body L1.
\<close>

definition br_medians_of ::
  "'z collaborators_scheme \<Rightarrow> string \<Rightarrow> real list \<times> ndarray \<Rightarrow> error + (real list \<times> fval list)" where
  "br_medians_of c body data =
     (if body = ''L1'' then
        (case make_hourly_medians c (fst data) (snd data) of
           Inl e \<Rightarrow> Inl e
         | Inr (times_medians, br_medians) \<Rightarrow> Inr (times_medians, map fneg br_medians))
      else
        (case first_column (snd data) of
           Inl e \<Rightarrow> Inl e
         | Inr col \<Rightarrow> make_hourly_medians c (fst data) col))"

text \<open>
  \<^verbatim>\<open>gen_dt_arr(*carrington_interval, cadence_days=1/24)\<close>: the interval is unpacked
  into the two positional arguments, and any other number of elements raises TypeError.
\<close>

fun gen_hourly :: "'z collaborators_scheme \<Rightarrow> real list \<Rightarrow> error + real list" where
  "gen_hourly c [t_start, t_end] = Inr (gen_dt_arr c t_start t_end (1 / 24))"
| "gen_hourly c _ = Inl TypeError"

text \<open>
  Lines 96 to 103: the medians interpolated onto the hourly timestamps of the interval,
  returned as they are or as their sign.
\<close>

definition br_hourly_of ::
  "'z collaborators_scheme \<Rightarrow> real list \<Rightarrow> bool \<Rightarrow> real list \<times> fval list
     \<Rightarrow> error + (real list \<times> fval list)" where
  "br_hourly_of c carrington_interval return_br medians =
     (case gen_hourly c carrington_interval of
        Inl e \<Rightarrow> Inl e
      | Inr datetimes_hourly \<Rightarrow>
          (case interp1d (fst medians) (snd medians) NaN datetimes_hourly of
             Inl e \<Rightarrow> Inl e
           | Inr br_hourly \<Rightarrow>
               Inr (datetimes_hourly,
                    if return_br then br_hourly else map np_sign br_hourly)))"

definition create_polarity_obs ::
  "'z collaborators_scheme \<Rightarrow> real \<Rightarrow> string \<Rightarrow> bool \<Rightarrow> error + (real list \<times> fval list)" where
  "create_polarity_obs c center_date body return_br =
     (case determine_carrington_interval c center_date body of
        Inl e \<Rightarrow> Inl e
      | Inr carrington_interval \<Rightarrow>
          (case br_medians_of c body (download_br_data c carrington_interval body) of
             Inl e \<Rightarrow> Inl e
           | Inr medians \<Rightarrow> br_hourly_of c carrington_interval return_br medians))"

section \<open>The radial velocity of the predicted-series builder\<close>

text \<open>
  Lines 151 to 157 of create_polarity_model: the medians that are NaN are dropped with
  their times, and the rest is interpolated onto the hourly timestamps with the fill
  value 360.
\<close>

definition nan_filt :: "fval list \<Rightarrow> nat list" where
  "nan_filt vr_medians = filter (\<lambda>i. \<not> isnan (vr_medians ! i)) [0 ..< length vr_medians]"

definition vr_arr_of :: "real list \<Rightarrow> fval list \<Rightarrow> real list \<Rightarrow> error + fval list" where
  "vr_arr_of times_medians vr_medians datetimes_hourly =
     (case np_take vr_medians (nan_filt vr_medians) of
        Inl e \<Rightarrow> Inl e
      | Inr vr \<Rightarrow>
          (case np_take times_medians (nan_filt vr_medians) of
             Inl e \<Rightarrow> Inl e
           | Inr tm \<Rightarrow> interp1d tm vr (Fin 360) datetimes_hourly))"

text \<open>Lines 132 to 149: the hourly medians of the downloaded speed, by body.\<close>

definition vr_medians_of ::
  "'z collaborators_scheme \<Rightarrow> string \<Rightarrow> real list \<times> ndarray \<Rightarrow> error + (real list \<times> fval list)" where
  "vr_medians_of c body data =
     (if body = ''L1'' then
        (case make_hourly_medians c (fst data) (snd data) of
           Inl e \<Rightarrow> Inl e
         | Inr (times_medians, vr_medians) \<Rightarrow> Inr (times_medians, map fneg vr_medians))
      else if body = ''stereo-a'' \<or> body = ''stereo-b'' then
        make_hourly_medians c (fst data) (snd data)
      else
        (case first_column (snd data) of
           Inl e \<Rightarrow> Inl e
         | Inr col \<Rightarrow> make_hourly_medians c (fst data) col))"

text \<open>
  Lines 124 to 157 of create_polarity_model: the hourly timestamps and the speed array
  handed to the projection, \<^verbatim>\<open>None\<close> for a constant speed.
\<close>

definition create_polarity_model_vr ::
  "'z collaborators_scheme \<Rightarrow> real \<Rightarrow> string \<Rightarrow> bool \<Rightarrow> error + (real list \<times> fval list option)" where
  "create_polarity_model_vr c center_date body constant_vr =
     (case determine_carrington_interval c center_date body of
        Inl e \<Rightarrow> Inl e
      | Inr carrington_interval \<Rightarrow>
          (case gen_hourly c carrington_interval of
             Inl e \<Rightarrow> Inl e
           | Inr datetimes_hourly \<Rightarrow>
               (if constant_vr then Inr (datetimes_hourly, None)
                else
                  (case vr_medians_of c body (download_vr_data c carrington_interval body) of
                     Inl e \<Rightarrow> Inl e
                   | Inr (times_medians, vr_medians) \<Rightarrow>
                       (case vr_arr_of times_medians vr_medians datetimes_hourly of
                          Inl e \<Rightarrow> Inl e
                        | Inr vr_arr \<Rightarrow> Inr (datetimes_hourly, Some vr_arr))))))"

section \<open>The antipode and the denominator of the score\<close>

text \<open>
  Claim C5: the antipode is (longitude + 180) mod 360, a value in [0, 360) for a
  longitude in [0, 360). At the longitude 200 the source computes 380: the modulus of
  line 25 applies to the constant 180 only, and the sum is not reduced, where the
  claimed value is 20.
\<close>

theorem inst_antipode_not_reduced:
  "inst_antipode 200 = 380 \<and> py_mod (200 + 180) 360 = 20 \<and> \<not> inst_antipode 200 < 360"
  by (simp add: inst_antipode_def py_mod_def)

text \<open>
  Claim C1: the score is the number of products equal to one divided by the number of
  products that are not NaN. For a model series [1, NaN] and an observed series [1, 1]
  on the same two timestamps the products are [1, NaN]; the claimed score is 1/1, and
  the source returns 1/2, the denominator being the length of the NaN mask.
\<close>

theorem compute_NL_metric_nan_in_denominator:
  "np_mul (map np_sign [Fin 1, Fin 1]) (map np_sign [Fin 1, NaN]) = Inr [Fin 1, NaN]
   \<and> spec_score [Fin 1, NaN] = Fin 1
   \<and> compute_NL_metric ([0, 3600], [Fin 1, NaN]) ([0, 3600], [Fin 1, Fin 1]) = Inr (Fin (1 / 2))"
  by (simp add: compute_NL_metric_def obs_pol_aligned_def np_mul_def nl_quotient_def
      nansum_def spec_score_def)

section \<open>Properties of the scorer\<close>

lemma fmul_commute: "fmul a b = fmul b a"
  by (cases a; cases b) simp_all

lemma map2_fmul_commute: "map2 fmul xs ys = map2 fmul ys xs"
proof (induction xs arbitrary: ys)
  case Nil
  then show ?case by simp
next
  case (Cons x xs)
  then show ?case by (cases ys) (simp_all add: fmul_commute)
qed

lemma np_mul_commute: "np_mul a b = np_mul b a"
  unfolding np_mul_def
  by (auto simp add: map2_fmul_commute fmul_commute)

text \<open>
  Claim C7, as amended: the score is symmetric in its two arguments when both series
  have the same number of timestamps and the same first and last timestamp, so that
  no resampling takes place.
\<close>

theorem compute_NL_metric_symmetric_same_grid:
  assumes "length (fst a) = length (fst b)"
    and "hd (fst a) = hd (fst b)"
    and "last (fst a) = last (fst b)"
  shows "compute_NL_metric a b = compute_NL_metric b a"
proof (cases "fst a = []")
  case True
  then have "fst b = []" using assms(1) by simp
  then show ?thesis using True by (simp add: compute_NL_metric_def obs_pol_aligned_def)
next
  case False
  then have nb: "fst b \<noteq> []" using assms(1) by auto
  have ab: "obs_pol_aligned (fst a) b = Inr (map np_sign (snd b))"
    using assms False nb by (simp add: obs_pol_aligned_def)
  have ba: "obs_pol_aligned (fst b) a = Inr (map np_sign (snd a))"
    using assms False nb by (simp add: obs_pol_aligned_def)
  have "np_mul (map np_sign (snd b)) (map np_sign (snd a))
        = np_mul (map np_sign (snd a)) (map np_sign (snd b))"
    by (rule np_mul_commute)
  then show ?thesis
    by (simp add: compute_NL_metric_def Let_def ab ba)
qed

text \<open>
  The theorem at two series on the same two timestamps, with the score they give.
\<close>

theorem compute_NL_metric_symmetric_same_grid_witness:
  "compute_NL_metric ([0, 3600], [Fin 1, Fin (- 1)]) ([0, 3600], [Fin 1, Fin 1])
     = compute_NL_metric ([0, 3600], [Fin 1, Fin 1]) ([0, 3600], [Fin 1, Fin (- 1)])
   \<and> compute_NL_metric ([0, 3600], [Fin 1, Fin 1]) ([0, 3600], [Fin 1, Fin (- 1)]) = Inr (Fin (1 / 2))"
  using compute_NL_metric_symmetric_same_grid
    [of "([0, 3600], [Fin 1, Fin (- 1)])" "([0, 3600], [Fin 1, Fin 1])"]
  by (simp add: compute_NL_metric_def obs_pol_aligned_def np_mul_def nl_quotient_def nansum_def)

text \<open>
  Claim C7 as stated fails: a model series on three timestamps and an observed series
  on their first and last give 2/3 one way round and 1 the other, the observed
  argument being the one that is resampled and the model argument the one whose length
  divides.
\<close>

theorem compute_NL_metric_not_symmetric:
  "compute_NL_metric ([0, 3600, 7200], [Fin 1, Fin (- 1), Fin 1]) ([0, 7200], [Fin 1, Fin 1])
     \<noteq> compute_NL_metric ([0, 7200], [Fin 1, Fin 1]) ([0, 3600, 7200], [Fin 1, Fin (- 1), Fin 1])"
  by (simp add: compute_NL_metric_def obs_pol_aligned_def np_mul_def nl_quotient_def
      nansum_def interp1d_def interp_at_def)

lemma obs_pol_aligned_ok:
  assumes "mt \<noteq> []" and "fst ob \<noteq> []" and "length (snd ob) = length (fst ob)"
  shows "\<exists>p. obs_pol_aligned mt ob = Inr p \<and> length p = length mt"
  using assms by (auto simp add: obs_pol_aligned_def Let_def interp1d_def)

text \<open>
  Claim C6, as amended: the scorer raises no error for want of comparable entries. On
  two series that are not empty and have one value per timestamp it returns a float,
  whatever the values are.
\<close>

theorem compute_NL_metric_returns_float:
  assumes "fst m \<noteq> []" and "fst ob \<noteq> []"
    and "length (snd m) = length (fst m)" and "length (snd ob) = length (fst ob)"
  shows "\<exists>v. compute_NL_metric m ob = Inr v"
proof -
  obtain p where p: "obs_pol_aligned (fst m) ob = Inr p"
    and len: "length p = length (fst m)"
    using obs_pol_aligned_ok [OF assms(1) assms(2) assms(4)] by auto
  have "np_mul p (map np_sign (snd m)) = Inr (map2 fmul p (map np_sign (snd m)))"
    using len assms(3) by (simp add: np_mul_def)
  then show ?thesis
    using p by (simp add: compute_NL_metric_def Let_def)
qed

text \<open>
  The theorem at a model series that is NaN throughout.
\<close>

theorem compute_NL_metric_returns_float_witness:
  "\<exists>v. compute_NL_metric ([0, 3600], [NaN, NaN]) ([0, 3600], [Fin 1, Fin 1]) = Inr v"
  using compute_NL_metric_returns_float [of "([0, 3600], [NaN, NaN])" "([0, 3600], [Fin 1, Fin 1])"]
  by simp

text \<open>
  Claim C6 as stated fails: with a model series [NaN] and an observed series [1] on one
  timestamp no product is comparable, and the scorer returns a number instead of an
  error.
\<close>

theorem compute_NL_metric_all_nan_returns_zero:
  "compute_NL_metric ([0], [NaN]) ([0], [Fin 1]) = Inr (Fin 0)"
  by (simp add: compute_NL_metric_def obs_pol_aligned_def np_mul_def nl_quotient_def nansum_def)

lemma lin_bound:
  assumes "x0 \<le> t" and "t < x1" and "\<bar>a\<bar> \<le> 1" and "\<bar>b\<bar> \<le> 1"
  shows "\<bar>(b - a) / (x1 - x0) * (t - x0) + a\<bar> \<le> (1::real)"
proof -
  define lam where "lam = (t - x0) / (x1 - x0)"
  have d: "0 < x1 - x0" using assms(1,2) by simp
  have l0: "0 \<le> lam" using assms(1) d by (simp add: lam_def)
  have l1: "lam \<le> 1" using assms(2) d by (simp add: lam_def)
  have e1: "(b - a) / (x1 - x0) * (t - x0) = (b - a) * lam" by (simp add: lam_def)
  have e: "(b - a) / (x1 - x0) * (t - x0) + a = (1 - lam) * a + lam * b"
    unfolding e1 by (simp add: algebra_simps)
  have "\<bar>(1 - lam) * a + lam * b\<bar> \<le> \<bar>(1 - lam) * a\<bar> + \<bar>lam * b\<bar>" by (rule abs_triangle_ineq)
  also have "\<dots> = (1 - lam) * \<bar>a\<bar> + lam * \<bar>b\<bar>" using l0 l1 by (simp add: abs_mult)
  also have "\<dots> \<le> (1 - lam) * 1 + lam * 1"
    using l0 l1 assms(3,4) by (intro add_mono mult_left_mono) simp_all
  finally show ?thesis unfolding e by simp
qed

lemma interp_in_bound:
  assumes "sorted (map fst pts)" and "pts \<noteq> []" and "fst (hd pts) \<le> t"
    and "\<forall>p \<in> set pts. \<forall>r. snd p = Fin r \<longrightarrow> \<bar>r\<bar> \<le> 1"
  shows "\<forall>r. interp_in pts t = Fin r \<longrightarrow> \<bar>r\<bar> \<le> 1"
  using assms
proof (induction pts t rule: interp_in.induct)
  case (1 t)
  then show ?case by simp
next
  case (2 p t)
  then show ?case by simp
next
  case (3 p q ps t)
  obtain x0 y0 x1 y1 where pq: "p = (x0, y0)" "q = (x1, y1)" by (cases p, cases q) auto
  have bp: "\<forall>r. y0 = Fin r \<longrightarrow> \<bar>r\<bar> \<le> 1" using "3.prems"(4) pq by simp
  have bq: "\<forall>r. y1 = Fin r \<longrightarrow> \<bar>r\<bar> \<le> 1" using "3.prems"(4) pq by simp
  have x0t: "x0 \<le> t" using "3.prems"(3) pq by simp
  show ?case
  proof (cases "t < x1")
    case True
    show ?thesis
    proof (cases "t = x0")
      case True
      then show ?thesis using \<open>t < x1\<close> bp pq by simp
    next
      case False
      have "\<forall>r. lin p q t = Fin r \<longrightarrow> \<bar>r\<bar> \<le> 1"
      proof (cases y0)
        case NaN
        then show ?thesis by (simp add: pq)
      next
        case a: (Fin a)
        show ?thesis
        proof (cases y1)
          case NaN
          then show ?thesis by (simp add: pq a)
        next
          case b: (Fin b)
          have "\<bar>a\<bar> \<le> 1" "\<bar>b\<bar> \<le> 1" using bp bq a b by simp_all
          then show ?thesis using lin_bound [OF x0t True] by (simp add: pq a b)
        qed
      qed
      then show ?thesis using True False pq by simp
    qed
  next
    case False
    have s: "sorted (map fst (q # ps))" using "3.prems"(1) by simp
    have h: "fst (hd (q # ps)) \<le> t" using False pq by simp
    have b: "\<forall>p \<in> set (q # ps). \<forall>r. snd p = Fin r \<longrightarrow> \<bar>r\<bar> \<le> 1"
      using "3.prems"(4) by simp
    have nt: "\<not> t < fst q" using False pq by simp
    have "\<forall>r. interp_in (q # ps) t = Fin r \<longrightarrow> \<bar>r\<bar> \<le> 1"
      using "3.IH" [OF nt s _ h b] by simp
    then show ?thesis using nt by simp
  qed
qed

lemma interp_at_bound:
  assumes "sorted (map fst pts)" and "pts \<noteq> []"
    and "\<forall>p \<in> set pts. \<forall>r. snd p = Fin r \<longrightarrow> \<bar>r\<bar> \<le> 1"
  shows "\<forall>r. interp_at pts NaN t = Fin r \<longrightarrow> \<bar>r\<bar> \<le> 1"
proof (cases "t < fst (hd pts) \<or> fst (last pts) < t")
  case True
  then show ?thesis by (simp add: interp_at_def)
next
  case False
  then have h: "fst (hd pts) \<le> t" by simp
  show ?thesis
    using interp_in_bound [OF assms(1,2) h assms(3)] False by (simp add: interp_at_def)
qed

lemma np_sign_bound: "np_sign v = Fin r \<Longrightarrow> \<bar>r\<bar> \<le> 1"
  by (cases v) (auto simp add: sgn_if)

lemma zip_sign_bound:
  "q \<in> set (zip x (map np_sign y)) \<Longrightarrow> snd q = Fin r \<Longrightarrow> \<bar>r\<bar> \<le> 1"
proof -
  assume q: "q \<in> set (zip x (map np_sign y))" and r: "snd q = Fin r"
  have "snd q \<in> set (map np_sign y)" using q by (metis set_zip_rightD prod.collapse)
  then obtain v where "snd q = np_sign v" by auto
  then show ?thesis using r np_sign_bound by simp
qed

lemma interp_at_fill:
  assumes "pts \<noteq> []"
    and "(\<forall>p \<in> set pts. t < fst p) \<or> (\<forall>p \<in> set pts. fst p < t)"
  shows "interp_at pts fill t = fill"
proof -
  have "hd pts \<in> set pts" "last pts \<in> set pts" using assms(1) by simp_all
  then show ?thesis using assms(2) by (auto simp add: interp_at_def)
qed

lemma interp1d_sign_bound:
  assumes p: "interp1d x (map np_sign y) NaN x_new = Inr p" and v: "v \<in> set p" and r: "v = Fin r"
  shows "- 1 \<le> r \<and> r \<le> 1"
proof -
  let ?pts = "sort_key fst (zip x (map np_sign y))"
  have ok: "length x = length (map np_sign y) \<and> x \<noteq> []"
    using p by (cases "length x \<noteq> length (map np_sign y) \<or> x = []") (simp_all add: interp1d_def)
  have pm: "p = map (interp_at ?pts NaN) x_new"
    using p ok by (simp add: interp1d_def)
  have "zip x (map np_sign y) \<noteq> []" using ok by (cases x; cases y) simp_all
  then have ne: "?pts \<noteq> []" by (metis length_0_conv length_sort)
  have s: "sorted (map fst ?pts)" by (rule sorted_sort_key)
  have b: "\<forall>q \<in> set ?pts. \<forall>r. snd q = Fin r \<longrightarrow> \<bar>r\<bar> \<le> 1"
    using zip_sign_bound [of _ x y] by simp
  obtain t where "v = interp_at ?pts NaN t" using v pm by auto
  then have "\<bar>r\<bar> \<le> 1" using interp_at_bound [OF s ne b, of t] r by simp
  then show ?thesis by (simp add: abs_le_iff)
qed

lemma interp1d_fill_outside:
  assumes p: "interp1d x y fill x_new = Inr p" and i: "i < length x_new"
    and out: "(\<forall>a \<in> set x. x_new ! i < a) \<or> (\<forall>a \<in> set x. a < x_new ! i)"
  shows "p ! i = fill"
proof -
  let ?pts = "sort_key fst (zip x y)"
  have ok: "length x = length y \<and> x \<noteq> []"
    using p by (cases "length x \<noteq> length y \<or> x = []") (simp_all add: interp1d_def)
  have pm: "p = map (interp_at ?pts fill) x_new"
    using p ok by (simp add: interp1d_def)
  have "zip x y \<noteq> []" using ok by (cases x; cases y) simp_all
  then have ne: "?pts \<noteq> []" by (metis length_0_conv length_sort)
  have "\<And>q. q \<in> set ?pts \<Longrightarrow> fst q \<in> set x"
    by (metis set_sort set_zip_leftD prod.collapse)
  then have "(\<forall>q \<in> set ?pts. x_new ! i < fst q) \<or> (\<forall>q \<in> set ?pts. fst q < x_new ! i)"
    using out by blast
  then have "interp_at ?pts fill (x_new ! i) = fill" by (rule interp_at_fill [OF ne])
  then show ?thesis using i by (simp add: pm)
qed

lemma interp1d_length: "interp1d x y fill x_new = Inr p \<Longrightarrow> length p = length x_new"
  by (cases "length x \<noteq> length y \<or> x = []") (auto simp add: interp1d_def)

text \<open>
  Claim C3, as amended: whenever the two timestamp arrays are not empty and differ in
  length or in first or last timestamp, the observed polarity that enters the product
  is the linear interpolation of the signs of the observed values onto the model's
  timestamps, one entry for each, NaN at a timestamp before or after all the observed
  ones. No sign is taken after the interpolation, so an entry is NaN or a number
  between -1 and 1, not always a sign.
\<close>

theorem obs_pol_aligned_resamples_signs:
  assumes "model_tstamps \<noteq> []" and "fst obs_tseries \<noteq> []"
    and "length model_tstamps \<noteq> length (fst obs_tseries)
           \<or> hd model_tstamps \<noteq> hd (fst obs_tseries)
           \<or> last model_tstamps \<noteq> last (fst obs_tseries)"
  shows "obs_pol_aligned model_tstamps obs_tseries
           = interp1d (fst obs_tseries) (map np_sign (snd obs_tseries)) NaN model_tstamps
         \<and> (\<forall>p. obs_pol_aligned model_tstamps obs_tseries = Inr p
               \<longrightarrow> length p = length model_tstamps
                 \<and> (\<forall>i < length model_tstamps.
                        (\<forall>r. p ! i = Fin r \<longrightarrow> - 1 \<le> r \<and> r \<le> 1)
                        \<and> (((\<forall>x \<in> set (fst obs_tseries). model_tstamps ! i < x)
                              \<or> (\<forall>x \<in> set (fst obs_tseries). x < model_tstamps ! i))
                             \<longrightarrow> p ! i = NaN)))"
proof -
  have eq: "obs_pol_aligned model_tstamps obs_tseries
      = interp1d (fst obs_tseries) (map np_sign (snd obs_tseries)) NaN model_tstamps"
    using assms by (simp add: obs_pol_aligned_def Let_def)
  have "length p = length model_tstamps
        \<and> (\<forall>i < length model_tstamps.
              (\<forall>r. p ! i = Fin r \<longrightarrow> - 1 \<le> r \<and> r \<le> 1)
              \<and> (((\<forall>x \<in> set (fst obs_tseries). model_tstamps ! i < x)
                    \<or> (\<forall>x \<in> set (fst obs_tseries). x < model_tstamps ! i))
                   \<longrightarrow> p ! i = NaN))"
    if p: "interp1d (fst obs_tseries) (map np_sign (snd obs_tseries)) NaN model_tstamps = Inr p"
    for p
  proof -
    have len: "length p = length model_tstamps" using p by (rule interp1d_length)
    have "\<forall>r. p ! i = Fin r \<longrightarrow> - 1 \<le> r \<and> r \<le> 1" if "i < length model_tstamps" for i
    proof -
      have "p ! i \<in> set p" using that len by simp
      then show ?thesis using interp1d_sign_bound [OF p] by blast
    qed
    moreover have "p ! i = NaN"
      if "i < length model_tstamps"
        and "(\<forall>x \<in> set (fst obs_tseries). model_tstamps ! i < x)
             \<or> (\<forall>x \<in> set (fst obs_tseries). x < model_tstamps ! i)" for i
      using interp1d_fill_outside [OF p that] .
    ultimately show ?thesis using len by blast
  qed
  then show ?thesis unfolding eq by blast
qed

text \<open>
  The theorem at an observed series on two timestamps, of values 3 and -1, and a model
  grid with a third timestamp a quarter of the way between them: the entry there is
  1/2.
\<close>

theorem obs_pol_aligned_resamples_signs_witness:
  "obs_pol_aligned [0, 1800, 7200] ([0, 7200], [Fin 3, Fin (- 1)])
     = interp1d [0, 7200] (map np_sign [Fin 3, Fin (- 1)]) NaN [0, 1800, 7200]
   \<and> obs_pol_aligned [0, 1800, 7200] ([0, 7200], [Fin 3, Fin (- 1)])
     = Inr [Fin 1, Fin (1 / 2), Fin (- 1)]"
proof -
  have h1: "[0, 1800, 7200 :: real] \<noteq> []" by simp
  have h2: "fst ([0, 7200 :: real], [Fin 3, Fin (- 1)]) \<noteq> []" by simp
  have h3: "length [0, 1800, 7200 :: real] \<noteq> length (fst ([0, 7200 :: real], [Fin 3, Fin (- 1)]))
      \<or> hd [0, 1800, 7200 :: real] \<noteq> hd (fst ([0, 7200 :: real], [Fin 3, Fin (- 1)]))
      \<or> last [0, 1800, 7200 :: real] \<noteq> last (fst ([0, 7200 :: real], [Fin 3, Fin (- 1)]))"
    by simp
  have e: "interp1d [0, 7200] (map np_sign [Fin 3, Fin (- 1)]) NaN [0, 1800, 7200]
     = Inr [Fin 1, Fin (1 / 2), Fin (- 1)]"
    by (simp add: interp1d_def interp_at_def)
  show ?thesis
    using obs_pol_aligned_resamples_signs [OF h1 h2 h3] e by simp
qed

text \<open>
  Claim C3 as stated fails: the observed values 3 and -1 two hours apart interpolate to
  1 at the hour between them, of sign 1, where the source interpolates their signs to
  0; against a model that is positive throughout the score is 1/3.
\<close>

theorem obs_pol_aligned_interpolates_signs:
  "obs_pol_aligned [0, 3600, 7200] ([0, 7200], [Fin 3, Fin (- 1)])
     = Inr [Fin 1, Fin 0, Fin (- 1)]
   \<and> spec_obs_pol_resampled [0, 3600, 7200] ([0, 7200], [Fin 3, Fin (- 1)])
     = Inr [Fin 1, Fin 1, Fin (- 1)]
   \<and> compute_NL_metric ([0, 3600, 7200], [Fin 1, Fin 1, Fin 1]) ([0, 7200], [Fin 3, Fin (- 1)])
     = Inr (Fin (1 / 3))"
  by (simp add: obs_pol_aligned_def spec_obs_pol_resampled_def interp1d_def interp_at_def
      compute_NL_metric_def np_mul_def nl_quotient_def nansum_def)

section \<open>Properties of the interval resolver\<close>

lemma np_diff_length: "length (np_diff xs) = length xs - 1"
  by (induction xs rule: np_diff.induct) simp_all

lemma np_diff_nth: "Suc i < length xs \<Longrightarrow> np_diff xs ! i = xs ! Suc i - xs ! i"
proof (induction xs arbitrary: i rule: np_diff.induct)
  case (1 a b xs)
  then show ?case by (cases i) simp_all
qed simp_all

lemma carr_inds_member:
  "j \<in> set (carr_inds lons antipode) \<longleftrightarrow>
     0 < j \<and> j < length lons
     \<and> 180 < py_mod (lons ! j - antipode) 360 - py_mod (lons ! (j - 1) - antipode) 360"
proof -
  let ?r = "lon_rel lons antipode"
  have len: "length ?r = length lons" by (simp add: lon_rel_def)
  have "j \<in> set (carr_inds lons antipode) \<longleftrightarrow>
          (\<exists>i. j = Suc i \<and> i < length lons - 1 \<and> 180 < np_diff ?r ! i)"
    by (auto simp add: carr_inds_def Let_def np_diff_length len)
  also have "\<dots> \<longleftrightarrow> (\<exists>i. j = Suc i \<and> Suc i < length lons \<and> 180 < ?r ! Suc i - ?r ! i)"
    using np_diff_nth [of _ ?r] len by (metis less_diff_conv Suc_eq_plus1)
  also have "\<dots> \<longleftrightarrow> 0 < j \<and> j < length lons
     \<and> 180 < py_mod (lons ! j - antipode) 360 - py_mod (lons ! (j - 1) - antipode) 360"
    by (cases j) (auto simp add: lon_rel_def)
  finally show ?thesis .
qed

lemma carr_inds_in_range: "j \<in> set (carr_inds lons antipode) \<Longrightarrow> j < length lons"
  by (auto simp add: carr_inds_def Let_def np_diff_length lon_rel_def)

lemma carr_inds_sorted: "sorted (carr_inds lons antipode) \<and> distinct (carr_inds lons antipode)"
proof -
  have "sorted (map Suc [0 ..< n])" for n by (simp only: map_Suc_upt sorted_upt)
  then have "sorted (map Suc (filter P [0 ..< n]))" for P n by (rule sorted_filter)
  moreover have "distinct (map Suc (filter P [0 ..< n]))" for P n
    by (simp add: distinct_map)
  ultimately show ?thesis by (simp add: carr_inds_def Let_def)
qed

lemma grid_window:
  "grid (- 2592000) 2592000 (1 / 4) = map (\<lambda>k. - 2592000 + real k * 21600) [0 ..< 240]"
  by (simp add: grid_def)

lemma py_mod_period:
  assumes "360 * real_of_int n \<le> x" and "x < 360 * real_of_int n + 360"
  shows "py_mod x 360 = x - 360 * real_of_int n"
proof -
  have "\<lfloor>x / 360\<rfloor> = n"
    using assms by (simp add: floor_eq_iff field_simps)
  then show ?thesis by (simp add: py_mod_def)
qed

lemma earth_like_rel:
  assumes "k < 240"
  shows "py_mod (carrington_lon earth_like b (- 2592000 + real k * 21600) - 360) 360
         = (if k \<le> 65 then 216 - real k * (33 / 10)
            else if k \<le> 174 then 576 - real k * (33 / 10)
            else 936 - real k * (33 / 10))"
proof -
  let ?x = "576 - real k * (33 / 10)"
  have arg: "180 - (- 2592000 + real k * 21600) * 11 / 72000 = ?x" by argo
  have "carrington_lon earth_like b t = py_mod (180 - t * 11 / 72000) 360" for t
    by (simp add: earth_like_def)
  then have "carrington_lon earth_like b (- 2592000 + real k * 21600)
      = py_mod (180 - (- 2592000 + real k * 21600) * 11 / 72000) 360" .
  then have lon: "carrington_lon earth_like b (- 2592000 + real k * 21600) = py_mod ?x 360"
    by (simp only: arg)
  have k: "real k < 240" using assms by simp
  consider (a) "k \<le> 65" | (b) "66 \<le> k" "k \<le> 174" | (c) "175 \<le> k"
    by linarith
  then show ?thesis
  proof cases
    case a
    then have "real k \<le> 65" by simp
    then have "py_mod ?x 360 = ?x - 360 * real_of_int 1"
      by (intro py_mod_period) simp_all
    then have v: "py_mod ?x 360 = 216 - real k * (33 / 10)" by simp
    have "py_mod (216 - real k * (33 / 10) - 360) 360
        = (216 - real k * (33 / 10) - 360) - 360 * real_of_int (- 1)"
      using \<open>real k \<le> 65\<close> by (intro py_mod_period) simp_all
    then have w: "py_mod (216 - real k * (33 / 10) - 360) 360 = 216 - real k * (33 / 10)"
      by simp
    show ?thesis unfolding lon v w using a by simp
  next
    case b
    then have r: "66 \<le> real k" "real k \<le> 174" by simp_all
    then have "py_mod ?x 360 = ?x - 360 * real_of_int 0"
      by (intro py_mod_period) simp_all
    then have v: "py_mod ?x 360 = ?x" by simp
    have "py_mod (?x - 360) 360 = (?x - 360) - 360 * real_of_int (- 1)"
      using r by (intro py_mod_period) simp_all
    then have w: "py_mod (?x - 360) 360 = ?x" by simp
    show ?thesis unfolding lon v w using b by simp
  next
    case c
    then have r: "175 \<le> real k" by simp
    then have "py_mod ?x 360 = ?x - 360 * real_of_int (- 1)"
      using k by (intro py_mod_period) simp_all
    then have v: "py_mod ?x 360 = 936 - real k * (33 / 10)" by simp
    have "py_mod (936 - real k * (33 / 10) - 360) 360
        = (936 - real k * (33 / 10) - 360) - 360 * real_of_int (- 1)"
      using r k by (intro py_mod_period) simp_all
    then have w: "py_mod (936 - real k * (33 / 10) - 360) 360 = 936 - real k * (33 / 10)"
      by simp
    show ?thesis unfolding lon v w using c by simp
  qed
qed

lemma earth_like_crossings:
  "carr_inds (map (carrington_lon earth_like b) (grid (- 2592000) 2592000 (6 / 24))) 360
     = [66, 175]"
proof -
  let ?l = "map (carrington_lon earth_like b) (grid (- 2592000) 2592000 (6 / 24))"
  let ?e = "\<lambda>k. if k \<le> 65 then 216 - real k * (33 / 10)
            else if k \<le> 174 then 576 - real k * (33 / 10)
            else 936 - real k * (33 / 10)"
  have len: "length ?l = 240" by (simp add: grid_window)
  have nth: "\<And>k. k < 240 \<Longrightarrow> py_mod (?l ! k - 360) 360 = ?e k"
    using earth_like_rel by (simp add: grid_window)
  have mem: "j \<in> set (carr_inds ?l 360) \<longleftrightarrow> j = 66 \<or> j = 175" for j
  proof (cases "0 < j \<and> j < 240")
    case False
    then show ?thesis using carr_inds_member [of j ?l 360] len by auto
  next
    case True
    then have j: "0 < j" "j < 240" "j - 1 < 240" by auto
    have r: "real (j - 1) = real j - 1" using j(1) by (simp add: of_nat_diff)
    have "j \<in> set (carr_inds ?l 360) \<longleftrightarrow> 180 < ?e j - ?e (j - 1)"
      unfolding carr_inds_member [of j ?l 360] len nth [OF j(2)] nth [OF j(3)]
      using j by simp
    also have "\<dots> \<longleftrightarrow> j = 66 \<or> j = 175"
    proof -
      consider "j \<le> 65" | "j = 66" | "67 \<le> j" "j \<le> 174" | "j = 175" | "176 \<le> j"
        by linarith
      then show ?thesis
      proof cases
        case 1
        then have "j - 1 \<le> 65" by simp
        then show ?thesis using 1 r by (simp add: field_simps)
      next
        case 2
        then show ?thesis by simp
      next
        case 3
        then have "\<not> j \<le> 65" "\<not> j - 1 \<le> 65" "j - 1 \<le> 174" by simp_all
        then show ?thesis using 3 r by (simp add: field_simps)
      next
        case 4
        then show ?thesis by simp
      next
        case 5
        then have "\<not> j \<le> 65" "\<not> j \<le> 174" "\<not> j - 1 \<le> 65" "\<not> j - 1 \<le> 174" by simp_all
        then show ?thesis using 5 r by (simp add: field_simps)
      qed
    qed
    finally show ?thesis .
  qed
  have "set (carr_inds ?l 360) = set [66, 175 :: nat]" using mem by auto
  moreover have "sorted [66, 175 :: nat]" "distinct [66, 175 :: nat]" by simp_all
  ultimately show ?thesis
    using carr_inds_sorted [of ?l 360] by (metis sorted_distinct_set_unique)
qed

lemma earth_like_interval:
  "determine_carrington_interval earth_like 0 b = Inr [- 1166400, 1188000]"
proof -
  have a: "inst_antipode (carrington_lon earth_like b 0) = 360"
    by (simp add: inst_antipode_def earth_like_def py_mod_def)
  have g: "gen_dt_arr earth_like = grid" by (simp add: earth_like_def)
  have c: "carr_inds (map (carrington_lon earth_like b) (grid (- 2592000) 2592000 (1 / 4))) 360
           = [66, 175]"
    using earth_like_crossings [of b] by simp
  show ?thesis
    by (simp add: determine_carrington_interval_def Let_def a g c np_take_def)
      (simp add: grid_window)
qed

text \<open>
  Claim C4, as amended: an index is flagged exactly when it is not the first one and
  the value of (longitude - antipode) mod 360 there exceeds the value at the sample
  before by more than 180, an upward jump from just above 0 to just below 360.
\<close>

theorem carr_inds_upward_jumps_only:
  "j \<in> set (carr_inds lons antipode) \<longleftrightarrow>
     0 < j \<and> j < length lons
     \<and> 180 < py_mod (lons ! j - antipode) 360 - py_mod (lons ! (j - 1) - antipode) 360"
  by (rule carr_inds_member)

text \<open>
  The theorem at the longitudes 10 and 350 with the antipode 360: the second sample is
  flagged.
\<close>

theorem carr_inds_upward_jumps_only_witness: "1 \<in> set (carr_inds [10, 350] 360) \<and> carr_inds [10, 350] 360 = [1]"
  using carr_inds_upward_jumps_only [of 1 "[10, 350]" 360]
  by (simp add: py_mod_def carr_inds_def lon_rel_def)

text \<open>
  Claim C4 as stated fails: from the longitude 350 to the longitude 10 the quantity
  falls by 340, more than 180 in magnitude, and no index is flagged.
\<close>

theorem carr_inds_downward_jump_not_flagged:
  "np_diff (lon_rel [350, 10] 360) = [- 340] \<and> carr_inds [350, 10] 360 = []"
  by (simp add: carr_inds_def lon_rel_def py_mod_def)

text \<open>
  Claim C2, as amended: the resolver returns the timestamps of the window at all the
  flagged indices, in the order of the window, as many as there are upward jumps; it
  raises no error when they are not two.
\<close>

theorem determine_carrington_interval_all_crossings:
  "determine_carrington_interval c center_date body =
     Inr (map (\<lambda>i. gen_dt_arr c (center_date - 30 * 86400) (center_date + 30 * 86400) (6 / 24) ! i)
       (carr_inds
          (map (carrington_lon c body)
             (gen_dt_arr c (center_date - 30 * 86400) (center_date + 30 * 86400) (6 / 24)))
          (inst_antipode (carrington_lon c body center_date))))"
proof -
  let ?w = "gen_dt_arr c (center_date - 30 * 86400) (center_date + 30 * 86400) (6 / 24)"
  let ?ci = "carr_inds (map (carrington_lon c body) ?w) (inst_antipode (carrington_lon c body center_date))"
  have "\<forall>i \<in> set ?ci. i < length ?w"
    using carr_inds_in_range [of _ "map (carrington_lon c body) ?w"] by auto
  then show ?thesis
    by (simp add: determine_carrington_interval_def Let_def np_take_def)
qed

text \<open>
  The theorem at the body that drifts by 13.2 degrees a day, with the reference time 0:
  the window holds two crossings, thirteen and a half days before the reference time
  and thirteen and three quarter days after it, and they are the interval.
\<close>

theorem determine_carrington_interval_all_crossings_witness:
  "determine_carrington_interval earth_like 0 ''earth'' = Inr [- 1166400, 1188000]"
proof -
  have a: "inst_antipode (carrington_lon earth_like ''earth'' 0) = 360"
    by (simp add: inst_antipode_def earth_like_def py_mod_def)
  have g: "gen_dt_arr earth_like = grid" by (simp add: earth_like_def)
  have c: "carr_inds (map (carrington_lon earth_like ''earth'') (grid (- 2592000) 2592000 (1 / 4))) 360
           = [66, 175]"
    using earth_like_crossings [of "''earth''"] by simp
  show ?thesis
    using determine_carrington_interval_all_crossings [of earth_like 0 "''earth''"]
    by (simp add: a g c) (simp add: grid_window)
qed

lemma py_mod_wrap_up: "- 360 \<le> x \<Longrightarrow> x < 0 \<Longrightarrow> py_mod x 360 = x + 360"
proof -
  assume a: "- 360 \<le> x" "x < 0"
  have "\<lfloor>x / 360\<rfloor> = - 1"
    using a by (simp add: floor_eq_iff)
  then show ?thesis by (simp add: py_mod_def)
qed

lemma slow_body_rel:
  assumes "k < 240"
  shows "py_mod (carrington_lon slow_body b (- 2592000 + real k * 21600) - 360) 360
         = 330 - real k * (5 / 4)"
proof -
  have k: "real k < 240" using assms by simp
  let ?x = "carrington_lon slow_body b (- 2592000 + real k * 21600) - 360"
  have x: "?x = - 30 - real k * (5 / 4)" by (simp add: slow_body_def field_simps)
  have "- 360 \<le> ?x" "?x < 0" using k unfolding x by simp_all
  then have "py_mod ?x 360 = ?x + 360" by (rule py_mod_wrap_up)
  then show ?thesis unfolding x by simp
qed

lemma slow_body_no_crossing:
  "carr_inds (map (carrington_lon slow_body b) (grid (- 2592000) 2592000 (6 / 24))) 360 = []"
proof -
  let ?w = "grid (- 2592000) 2592000 (6 / 24)"
  let ?l = "map (carrington_lon slow_body b) ?w"
  have len: "length ?l = 240" by (simp add: grid_window)
  have nth: "\<And>k. k < 240 \<Longrightarrow> py_mod (?l ! k - 360) 360 = 330 - real k * (5 / 4)"
    using slow_body_rel by (simp add: grid_window)
  have "j \<notin> set (carr_inds ?l 360)" for j
  proof
    assume "j \<in> set (carr_inds ?l 360)"
    then have *: "0 < j \<and> j < length ?l
        \<and> 180 < py_mod (?l ! j - 360) 360 - py_mod (?l ! (j - 1) - 360) 360"
      using carr_inds_member [of j ?l 360] by blast
    from * have j: "0 < j" "j < 240" using len by auto
    from * have d: "180 < py_mod (?l ! j - 360) 360 - py_mod (?l ! (j - 1) - 360) 360"
      by blast
    have "j - 1 < 240" using j by simp
    then have "py_mod (?l ! (j - 1) - 360) 360 = 330 - real (j - 1) * (5 / 4)" by (rule nth)
    moreover have "py_mod (?l ! j - 360) 360 = 330 - real j * (5 / 4)" using j(2) by (rule nth)
    moreover have "real (j - 1) = real j - 1" using j(1) by (simp add: of_nat_diff)
    ultimately show False using d by (simp add: field_simps)
  qed
  then show ?thesis by (cases "carr_inds ?l 360") auto
qed

text \<open>
  Claim C2 as stated fails: the body that drifts by five degrees a day does not reach
  the antipode within thirty days of the reference time, and the resolver returns an
  empty interval, without an error.
\<close>

theorem determine_carrington_interval_degenerate:
  "determine_carrington_interval slow_body 0 ''slow'' = Inr []"
proof -
  have a: "inst_antipode (carrington_lon slow_body ''slow'' 0) = 360"
    by (simp add: inst_antipode_def slow_body_def)
  have g: "gen_dt_arr slow_body = grid" by (simp add: slow_body_def)
  show ?thesis
    using slow_body_no_crossing [of "''slow''"]
    by (simp add: determine_carrington_interval_def Let_def a g np_take_def)
qed

section \<open>Properties of the hourly reducer\<close>




















section \<open>Properties of the radial velocity\<close>

lemma np_take_nan_filt:
  "np_take vs (nan_filt vs) = Inr (filter (\<lambda>v. \<not> isnan v) vs)"
proof -
  have "map (\<lambda>i. vs ! i) (filter (\<lambda>i. \<not> isnan (vs ! i)) [0 ..< length vs])
        = filter (\<lambda>v. \<not> isnan v) (map (\<lambda>i. vs ! i) [0 ..< length vs])"
    by (simp add: filter_map comp_def)
  then show ?thesis by (simp add: np_take_def nan_filt_def map_nth)
qed

lemma np_take_times:
  "length tm = length vs \<Longrightarrow> np_take tm (nan_filt vs) = Inr (map (\<lambda>i. tm ! i) (nan_filt vs))"
  by (simp add: np_take_def nan_filt_def)

lemma length_nan_filt: "length (nan_filt vs) = length (filter (\<lambda>v. \<not> isnan v) vs)"
  using np_take_nan_filt [of vs] by (auto simp add: np_take_def split: if_splits dest: arg_cong [where f = length])

lemma interp_in_fin:
  "pts \<noteq> [] \<Longrightarrow> \<forall>p \<in> set pts. \<not> isnan (snd p) \<Longrightarrow> \<not> isnan (interp_in pts t)"
proof (induction pts t rule: interp_in.induct)
  case (3 p q ps t)
  obtain x0 y0 x1 y1 where pq: "p = (x0, y0)" "q = (x1, y1)" by (cases p, cases q) auto
  have "\<not> isnan y0" "\<not> isnan y1" using 3(2,3) pq by auto
  then obtain a b where "y0 = Fin a" "y1 = Fin b" by (cases y0; cases y1) auto
  then have "\<not> isnan (lin p q t)" using pq by simp
  then show ?case using 3 by auto
qed simp_all

lemma interp_at_fin:
  "pts \<noteq> [] \<Longrightarrow> \<forall>p \<in> set pts. \<not> isnan (snd p) \<Longrightarrow> \<not> isnan fill
     \<Longrightarrow> \<not> isnan (interp_at pts fill t)"
  by (simp add: interp_at_def interp_in_fin)

lemma interp_in_node:
  "sorted_wrt (<) (map fst P) \<Longrightarrow> a < length P \<Longrightarrow> interp_in P (fst (P ! a)) = snd (P ! a)"
proof (induction P "fst (P ! a)" arbitrary: a rule: interp_in.induct)
  case 1
  then show ?case by simp
next
  case (2 p)
  then show ?case by simp
next
  case (3 p q ps)
  show ?case
  proof (cases a)
    case 0
    then show ?thesis using 3(2) by simp
  next
    case (Suc a')
    have a': "a' < length (q # ps)" using 3(3) Suc by simp
    have s: "sorted_wrt (<) (map fst (q # ps))" using 3(2) by simp
    have "fst q \<le> fst ((q # ps) ! a')"
      using s a' by (cases a') (auto simp add: less_imp_le)
    then have nl: "\<not> fst ((p # q # ps) ! a) < fst q" using Suc by simp
    have "interp_in (q # ps) (fst ((q # ps) ! a')) = snd ((q # ps) ! a')"
      using 3(1) [of a'] nl s a' Suc by simp
    then show ?thesis using nl Suc by simp
  qed
qed

lemma interp_in_between:
  assumes "sorted_wrt (<) (map fst P)" and "Suc a < length P"
    and "fst (P ! a) \<le> t" and "t \<le> fst (P ! Suc a)"
    and "snd (P ! a) = Fin y0" and "snd (P ! Suc a) = Fin y1"
  shows "interp_in P t
         = Fin ((y1 - y0) / (fst (P ! Suc a) - fst (P ! a)) * (t - fst (P ! a)) + y0)"
proof (cases "t = fst (P ! Suc a)")
  case True
  have lt: "fst (P ! a) < fst (P ! Suc a)"
    using assms(1,2) by (simp add: sorted_wrt_iff_nth_less)
  have "interp_in P t = snd (P ! Suc a)"
    unfolding True using assms(1,2) by (rule interp_in_node)
  then show ?thesis using assms(6) lt True by simp
next
  case False
  then have tl: "t < fst (P ! Suc a)" using assms(4) by simp
  show ?thesis
    using assms(1,2,3,5,6) tl
  proof (induction P t arbitrary: a rule: interp_in.induct)
    case (1 t)
    then show ?case by simp
  next
    case (2 p t)
    then show ?case by simp
  next
    case (3 p q ps t)
    show ?case
    proof (cases a)
      case 0
      obtain x0 x1 where pq: "p = (x0, Fin y0)" "q = (x1, Fin y1)"
        using 3(5,6) 0 by (cases p; cases q) auto
      show ?thesis using 3(4,7) 0 pq by simp
    next
      case (Suc a')
      have s: "sorted_wrt (<) (map fst (q # ps))" using 3(2) by simp
      have a': "Suc a' < length (q # ps)" using 3(3) Suc by simp
      have "fst q \<le> fst ((q # ps) ! a')"
        using s a' by (cases a') (auto simp add: less_imp_le)
      then have nl: "\<not> t < fst q" using 3(4) Suc by simp
      have "interp_in (q # ps) t
            = Fin ((y1 - y0) / (fst ((q # ps) ! Suc a') - fst ((q # ps) ! a'))
                   * (t - fst ((q # ps) ! a')) + y0)"
        using 3(1) [OF nl s a'] 3(4,5,6,7) Suc by simp
      then show ?thesis using nl Suc by simp
    qed
  qed
qed

lemma zip_map_same: "zip (map f xs) (map g xs) = map (\<lambda>x. (f x, g x)) xs"
  by (induction xs) simp_all

lemma nan_filt_vals:
  "filter (\<lambda>v. \<not> isnan v) vs = map (\<lambda>i. vs ! i) (nan_filt vs)"
  using np_take_nan_filt [of vs] by (simp add: np_take_def nan_filt_def split: if_splits)

lemma nan_filt_sorted_times:
  assumes "sorted_wrt (<) tm" and "length tm = length vs"
  shows "sorted_wrt (<) (map (\<lambda>i. tm ! i) (nan_filt vs))"
proof -
  have s: "sorted_wrt (<) (nan_filt vs)" by (simp add: nan_filt_def sorted_wrt_filter)
  have b: "\<And>i. i \<in> set (nan_filt vs) \<Longrightarrow> i < length tm"
    using assms(2) by (simp add: nan_filt_def)
  have "sorted_wrt (\<lambda>i j. tm ! i < tm ! j) (nan_filt vs)"
  proof (rule sorted_wrt_mono_rel [OF _ s])
    fix i j assume "i \<in> set (nan_filt vs)" "j \<in> set (nan_filt vs)" "i < j"
    then show "tm ! i < tm ! j"
      using assms(1) b by (simp add: sorted_wrt_iff_nth_less)
  qed
  then show ?thesis by (simp add: sorted_wrt_map)
qed

text \<open>
  Claim C9, as amended: when the supplied series has one time for each hourly median
  and at least one median that is not NaN, the NaN medians are dropped and the rest is
  interpolated onto the hourly timestamps, one speed for each, none of them NaN. A
  timestamp before all or after all of the times that carry a speed is given the speed
  360. For ascending times, a timestamp at a time that carries a speed is given that
  speed, and a timestamp between two consecutive such times the value of the straight
  line through the two speeds.
\<close>

theorem vr_arr_of_fill:
  assumes "length times_medians = length vr_medians"
    and "\<exists>v \<in> set vr_medians. \<not> isnan v"
  shows "\<exists>vr_arr. vr_arr_of times_medians vr_medians datetimes_hourly = Inr vr_arr
      \<and> length vr_arr = length datetimes_hourly
      \<and> (\<forall>i < length datetimes_hourly. \<not> isnan (vr_arr ! i)
           \<and> (((\<forall>j \<in> set (nan_filt vr_medians). datetimes_hourly ! i < times_medians ! j)
                \<or> (\<forall>j \<in> set (nan_filt vr_medians). times_medians ! j < datetimes_hourly ! i))
               \<longrightarrow> vr_arr ! i = Fin 360)
           \<and> (sorted_wrt (<) times_medians \<longrightarrow>
                (\<forall>a < length (nan_filt vr_medians).
                   (datetimes_hourly ! i = times_medians ! (nan_filt vr_medians ! a)
                      \<longrightarrow> vr_arr ! i = vr_medians ! (nan_filt vr_medians ! a))
                   \<and> (Suc a < length (nan_filt vr_medians)
                       \<and> times_medians ! (nan_filt vr_medians ! a) \<le> datetimes_hourly ! i
                       \<and> datetimes_hourly ! i \<le> times_medians ! (nan_filt vr_medians ! Suc a)
                      \<longrightarrow> (\<exists>y0 y1.
                             vr_medians ! (nan_filt vr_medians ! a) = Fin y0
                             \<and> vr_medians ! (nan_filt vr_medians ! Suc a) = Fin y1
                             \<and> vr_arr ! i =
                                 Fin ((y1 - y0)
                                      / (times_medians ! (nan_filt vr_medians ! Suc a)
                                         - times_medians ! (nan_filt vr_medians ! a))
                                      * (datetimes_hourly ! i
                                         - times_medians ! (nan_filt vr_medians ! a))
                                      + y0))))))"
proof -
  let ?nf = "nan_filt vr_medians"
  let ?vr = "filter (\<lambda>v. \<not> isnan v) vr_medians"
  let ?tm = "map (\<lambda>i. times_medians ! i) ?nf"
  let ?P = "map (\<lambda>i. (times_medians ! i, vr_medians ! i)) ?nf"
  let ?pts = "sort_key fst (zip ?tm ?vr)"
  have zP: "zip ?tm ?vr = ?P" by (simp add: nan_filt_vals zip_map_same)
  have len: "length ?tm = length ?vr" by (simp add: length_nan_filt)
  have ne: "?vr \<noteq> []" using assms(2) by (auto simp add: filter_empty_conv)
  then have tne: "?tm \<noteq> []" using len by (metis length_0_conv)
  have r: "vr_arr_of times_medians vr_medians datetimes_hourly
            = Inr (map (interp_at ?pts (Fin 360)) datetimes_hourly)"
    using len tne
    by (simp add: vr_arr_of_def np_take_nan_filt np_take_times [OF assms(1)] interp1d_def)
  have sp: "set ?pts = set ?P" by (simp add: zP)
  have Pne: "?P \<noteq> []" using tne by simp
  have pne: "?pts \<noteq> []" using Pne by (metis zP length_0_conv length_sort)
  have valid: "\<And>j. j \<in> set ?nf \<Longrightarrow> \<not> isnan (vr_medians ! j)"
    by (simp add: nan_filt_def)
  have fin: "\<forall>p \<in> set ?pts. \<not> isnan (snd p)"
    unfolding sp using valid by auto
  have nonnan: "\<not> isnan (interp_at ?pts (Fin 360) t)" for t
    using interp_at_fin [OF pne fin] by simp
  have fill: "interp_at ?pts (Fin 360) t = Fin 360"
    if "(\<forall>j \<in> set ?nf. t < times_medians ! j) \<or> (\<forall>j \<in> set ?nf. times_medians ! j < t)" for t
  proof (rule interp_at_fill [OF pne])
    show "(\<forall>p \<in> set ?pts. t < fst p) \<or> (\<forall>p \<in> set ?pts. fst p < t)"
      unfolding sp using that by auto
  qed
  have inrange: "(t = times_medians ! (?nf ! a) \<longrightarrow> interp_at ?pts (Fin 360) t = vr_medians ! (?nf ! a))
      \<and> (Suc a < length ?nf \<and> times_medians ! (?nf ! a) \<le> t \<and> t \<le> times_medians ! (?nf ! Suc a)
          \<longrightarrow> (\<exists>y0 y1. vr_medians ! (?nf ! a) = Fin y0 \<and> vr_medians ! (?nf ! Suc a) = Fin y1
                 \<and> interp_at ?pts (Fin 360) t =
                     Fin ((y1 - y0) / (times_medians ! (?nf ! Suc a) - times_medians ! (?nf ! a))
                          * (t - times_medians ! (?nf ! a)) + y0)))"
    if st: "sorted_wrt (<) times_medians" and a: "a < length ?nf" for t a
  proof -
    have sP: "sorted_wrt (<) (map fst ?P)"
      using nan_filt_sorted_times [OF st assms(1)] by (simp add: comp_def)
    then have "sorted (map fst ?P)" by (rule strict_sorted_imp_sorted)
    then have pts: "?pts = ?P" unfolding zP by (rule sort_key_id_if_sorted)
    have lP: "length ?P = length ?nf" by simp
    have nthP: "\<And>k. k < length ?nf \<Longrightarrow> ?P ! k = (times_medians ! (?nf ! k), vr_medians ! (?nf ! k))"
      by simp
    have mono: "\<And>k l. k \<le> l \<Longrightarrow> l < length ?nf \<Longrightarrow> fst (?P ! k) \<le> fst (?P ! l)"
    proof -
      fix k l assume kl: "k \<le> l" "l < length ?nf"
      have "sorted (map fst ?P)" using sP by (rule strict_sorted_imp_sorted)
      then have "map fst ?P ! k \<le> map fst ?P ! l"
        using kl by (simp add: sorted_iff_nth_mono)
      then show "fst (?P ! k) \<le> fst (?P ! l)" using kl by simp
    qed
    have h: "fst (hd ?P) \<le> fst (?P ! a)"
      using mono [of 0 a] a Pne by (simp add: hd_conv_nth)
    have la: "\<And>k. k < length ?nf \<Longrightarrow> fst (?P ! k) \<le> fst (last ?P)"
    proof -
      fix k assume k: "k < length ?nf"
      have "last ?P = ?P ! (length ?nf - 1)" using Pne by (simp add: last_conv_nth)
      then show "fst (?P ! k) \<le> fst (last ?P)"
        using mono [of k "length ?nf - 1"] k by simp
    qed
    have node: "interp_at ?pts (Fin 360) (fst (?P ! a)) = snd (?P ! a)"
    proof -
      have "interp_in ?P (fst (?P ! a)) = snd (?P ! a)"
        using sP a by (intro interp_in_node) simp_all
      moreover have "\<not> (fst (?P ! a) < fst (hd ?P) \<or> fst (last ?P) < fst (?P ! a))"
        using h la [OF a] by simp
      ultimately show ?thesis unfolding pts interp_at_def by simp
    qed
    have between: "\<exists>y0 y1. vr_medians ! (?nf ! a) = Fin y0 \<and> vr_medians ! (?nf ! Suc a) = Fin y1
                 \<and> interp_at ?pts (Fin 360) t =
                     Fin ((y1 - y0) / (times_medians ! (?nf ! Suc a) - times_medians ! (?nf ! a))
                          * (t - times_medians ! (?nf ! a)) + y0)"
      if sa: "Suc a < length ?nf" and lo: "times_medians ! (?nf ! a) \<le> t"
        and hi: "t \<le> times_medians ! (?nf ! Suc a)"
    proof -
      have "\<not> isnan (vr_medians ! (?nf ! a))" "\<not> isnan (vr_medians ! (?nf ! Suc a))"
        using valid a sa by simp_all
      then obtain y0 y1 where y: "vr_medians ! (?nf ! a) = Fin y0" "vr_medians ! (?nf ! Suc a) = Fin y1"
        by (metis isnan.elims(3))
      have "interp_in ?P t = Fin ((y1 - y0) / (fst (?P ! Suc a) - fst (?P ! a)) * (t - fst (?P ! a)) + y0)"
        using sP sa lo hi y a by (intro interp_in_between) simp_all
      moreover have "\<not> (t < fst (hd ?P) \<or> fst (last ?P) < t)"
        using h la [OF sa] lo hi a sa by simp
      ultimately have "interp_at ?pts (Fin 360) t
          = Fin ((y1 - y0) / (fst (?P ! Suc a) - fst (?P ! a)) * (t - fst (?P ! a)) + y0)"
        unfolding pts interp_at_def by simp
      then show ?thesis using y a sa by simp
    qed
    show ?thesis using node between a by simp
  qed
  show ?thesis
    unfolding r using nonnan fill inrange by simp
qed

text \<open>
  The theorem at three medians, the middle one NaN, and four hourly timestamps, the
  first and the last out of range.
\<close>

theorem vr_arr_of_fill_witness:
  "vr_arr_of [1800, 5400, 9000] [Fin 400, NaN, Fin 500] [0, 3600, 7200, 10800]
     = Inr [Fin 360, Fin 425, Fin 475, Fin 360]"
proof -
  have e: "vr_arr_of [1800, 5400, 9000] [Fin 400, NaN, Fin 500] [0, 3600, 7200, 10800]
     = Inr [Fin 360, Fin 425, Fin 475, Fin 360]"
    by code_simp
  have h1: "length [1800, 5400, 9000 :: real] = length [Fin 400, NaN, Fin 500]" by simp
  have h2: "\<exists>v \<in> set [Fin 400, NaN, Fin 500]. \<not> isnan v" by simp
  show ?thesis
    using vr_arr_of_fill [OF h1 h2, of "[0, 3600, 7200, 10800]"] e by simp
qed

text \<open>
  Claim C9 as stated fails: when every hourly median of the supplied series is NaN,
  nothing is left to interpolate, and the call raises ValueError where the claim
  assigns the speed 360.
\<close>

theorem vr_arr_of_all_nan_raises: "vr_arr_of [1800, 5400] [NaN, NaN] [0, 3600] = Inl ValueError"
  by (simp add: vr_arr_of_def np_take_def nan_filt_def interp1d_def)

section \<open>Properties of the observed-series builder\<close>

lemma np_sign_fneg: "np_sign (fneg v) = fneg (np_sign v)"
  by (cases v) simp_all

lemma lin_fneg: "lin (apsnd fneg p) (apsnd fneg q) t = fneg (lin p q t)"
proof (cases p)
  case (Pair x0 y0)
  then show ?thesis
  proof (cases q)
    case q: (Pair x1 y1)
    show ?thesis
      unfolding Pair q
      by (cases y0; cases y1) (simp_all add: algebra_simps minus_divide_left [symmetric] diff_divide_distrib)
  qed
qed

lemma interp_in_fneg: "interp_in (map (apsnd fneg) pts) t = fneg (interp_in pts t)"
  by (induction pts t rule: interp_in.induct) (simp_all add: lin_fneg)

lemma interp_at_fneg:
  "pts \<noteq> [] \<Longrightarrow> interp_at (map (apsnd fneg) pts) NaN t = fneg (interp_at pts NaN t)"
  by (simp add: interp_at_def interp_in_fneg hd_map last_map)

lemma insort_key_apsnd:
  "insort_key fst (apsnd f p) (map (apsnd f) ps) = map (apsnd f) (insort_key fst p ps)"
  by (induction ps) simp_all

lemma sort_key_apsnd:
  "sort_key fst (map (apsnd f) ps) = map (apsnd f) (sort_key fst ps)"
  by (induction ps) (simp_all add: insort_key_apsnd)

lemma zip_map_fneg: "zip x (map fneg y) = map (apsnd fneg) (zip x y)"
  by (simp add: zip_map2 apsnd_def map_prod_def)

lemma interp1d_fneg:
  "interp1d x (map fneg y) NaN x_new
     = (case interp1d x y NaN x_new of Inl e \<Rightarrow> Inl e | Inr v \<Rightarrow> Inr (map fneg v))"
proof (cases "length x \<noteq> length y \<or> x = []")
  case True
  then show ?thesis by (auto simp add: interp1d_def)
next
  case False
  then have ne: "sort_key fst (zip x y) \<noteq> []"
    by (metis length_0_conv length_sort length_zip min.idem)
  show ?thesis
    using False by (simp add: interp1d_def zip_map_fneg sort_key_apsnd interp_at_fneg [OF ne])
qed

lemma br_hourly_of_fneg:
  "br_hourly_of c ci return_br (tm, map fneg bm)
     = (case br_hourly_of c ci return_br (tm, bm) of
          Inl e \<Rightarrow> Inl e
        | Inr (dh, v) \<Rightarrow> Inr (dh, map fneg v))"
  by (auto simp add: br_hourly_of_def interp1d_fneg np_sign_fneg comp_def split: sum.splits)

lemma fneg_minus: "fneg = (\<lambda>x. case x of NaN \<Rightarrow> NaN | Fin r \<Rightarrow> Fin (- r))"
proof
  fix x show "fneg x = (case x of NaN \<Rightarrow> NaN | Fin r \<Rightarrow> Fin (- r))" by (cases x) simp_all
qed

lemma first_column_cases:
  "first_column a =
     (case a of
        Arr1 xs \<Rightarrow> Inl IndexError
      | Arr2 rows \<Rightarrow> if \<exists>r \<in> set rows. r = [] then Inl IndexError else Inr (Arr1 (map hd rows)))"
  by (cases a) simp_all

text \<open>
  Claim C10: for the body L1 the returned series is, entry by entry, minus the series
  that the hourly medians of the downloaded values give without the negation (NaN
  staying NaN), the negation of the medians passing through the interpolation and the
  sign; for any other body the series is the one given by the hourly medians of the
  first column of the downloaded values, not negated.
\<close>

theorem create_polarity_obs_L1_negated:
  "create_polarity_obs c center_date ''L1'' return_br =
     (case determine_carrington_interval c center_date ''L1'' of
        Inl e \<Rightarrow> Inl e
      | Inr ci \<Rightarrow>
          (case make_hourly_medians c (fst (download_br_data c ci ''L1''))
                  (snd (download_br_data c ci ''L1'')) of
             Inl e \<Rightarrow> Inl e
           | Inr medians \<Rightarrow>
               (case br_hourly_of c ci return_br medians of
                  Inl e \<Rightarrow> Inl e
                | Inr (dh, v) \<Rightarrow>
                    Inr (dh, map (\<lambda>x. case x of NaN \<Rightarrow> NaN | Fin r \<Rightarrow> Fin (- r)) v))))
   \<and> (body \<noteq> ''L1'' \<longrightarrow>
        create_polarity_obs c center_date body return_br =
          (case determine_carrington_interval c center_date body of
             Inl e \<Rightarrow> Inl e
           | Inr ci \<Rightarrow>
               (case snd (download_br_data c ci body) of
                  Arr1 xs \<Rightarrow> Inl IndexError
                | Arr2 rows \<Rightarrow>
                    if \<exists>r \<in> set rows. r = [] then Inl IndexError
                    else
                      (case make_hourly_medians c (fst (download_br_data c ci body))
                              (Arr1 (map hd rows)) of
                         Inl e \<Rightarrow> Inl e
                       | Inr medians \<Rightarrow> br_hourly_of c ci return_br medians))))"
proof -
  have l1: "create_polarity_obs c center_date ''L1'' return_br =
     (case determine_carrington_interval c center_date ''L1'' of
        Inl e \<Rightarrow> Inl e
      | Inr ci \<Rightarrow>
          (case make_hourly_medians c (fst (download_br_data c ci ''L1''))
                  (snd (download_br_data c ci ''L1'')) of
             Inl e \<Rightarrow> Inl e
           | Inr medians \<Rightarrow>
               (case br_hourly_of c ci return_br medians of
                  Inl e \<Rightarrow> Inl e
                | Inr (dh, v) \<Rightarrow> Inr (dh, map fneg v))))"
    by (auto simp add: create_polarity_obs_def br_medians_of_def br_hourly_of_fneg
        split: sum.splits prod.splits)
  have other: "create_polarity_obs c center_date body return_br =
          (case determine_carrington_interval c center_date body of
             Inl e \<Rightarrow> Inl e
           | Inr ci \<Rightarrow>
               (case snd (download_br_data c ci body) of
                  Arr1 xs \<Rightarrow> Inl IndexError
                | Arr2 rows \<Rightarrow>
                    if \<exists>r \<in> set rows. r = [] then Inl IndexError
                    else
                      (case make_hourly_medians c (fst (download_br_data c ci body))
                              (Arr1 (map hd rows)) of
                         Inl e \<Rightarrow> Inl e
                       | Inr medians \<Rightarrow> br_hourly_of c ci return_br medians)))"
    if "body \<noteq> ''L1''"
    using that
    by (auto simp add: create_polarity_obs_def br_medians_of_def first_column_cases
        split: sum.splits prod.splits ndarray.splits)
  show ?thesis using l1 other unfolding fneg_minus by blast
qed

lemma grid_hourly:
  "grid (- 1166400) 1188000 (1 / 24) = map (\<lambda>k. - 1166400 + real k * 3600) [0 ..< 654]"
  by (simp add: grid_def)

lemma earth_like_medians:
  "make_hourly_medians earth_like [- 1166400, - 1165800, - 1162200, - 1158600]
     (Arr1 [Fin 5, Fin 5, Fin 3, Fin 3])
   = Inr ([- 1164600, - 1161000], [Fin 5, Fin 3])"
  by code_simp

lemma earth_like_raw_hourly:
  "br_hourly_of earth_like [- 1166400, 1188000] False ([- 1164600, - 1161000], [Fin 5, Fin 3])
   = Inr (grid (- 1166400) 1188000 (1 / 24),
          map (\<lambda>t. np_sign (interp_at [(- 1164600, Fin 5), (- 1161000, Fin 3)] NaN t))
            (grid (- 1166400) 1188000 (1 / 24)))"
  by (simp add: br_hourly_of_def earth_like_def interp1d_def comp_def)

text \<open>
  The theorem at the body L1 with the reference time 0 and four positive samples in the
  first hours of the interval: the series has 654 hourly entries, and at the second
  hour, where the medians 5 and 3 interpolate to 4, the series without the negation
  has the polarity 1 and the returned series the polarity -1.
\<close>

theorem create_polarity_obs_L1_negated_witness:
  "\<exists>v w. br_hourly_of earth_like [- 1166400, 1188000] False
            ([- 1164600, - 1161000], [Fin 5, Fin 3])
          = Inr (grid (- 1166400) 1188000 (1 / 24), v)
        \<and> create_polarity_obs earth_like 0 ''L1'' False
          = Inr (grid (- 1166400) 1188000 (1 / 24), w)
        \<and> length w = 654 \<and> v ! 0 = NaN \<and> w ! 0 = NaN \<and> v ! 1 = Fin 1 \<and> w ! 1 = Fin (- 1)"
proof -
  let ?f = "\<lambda>t. np_sign (interp_at [(- 1164600, Fin 5), (- 1161000, Fin 3)] NaN t)"
  let ?dh = "grid (- 1166400) 1188000 (1 / 24)"
  let ?neg = "\<lambda>x. case x of NaN \<Rightarrow> NaN | Fin r \<Rightarrow> Fin (- r)"
  have d: "download_br_data earth_like [- 1166400, 1188000] ''L1''
      = ([- 1166400, - 1165800, - 1162200, - 1158600], Arr1 [Fin 5, Fin 5, Fin 3, Fin 3])"
    by (simp add: earth_like_def)
  have r: "create_polarity_obs earth_like 0 ''L1'' False = Inr (?dh, map ?neg (map ?f ?dh))"
    using create_polarity_obs_L1_negated [of earth_like 0 False "''L1''"]
    by (simp add: earth_like_interval d earth_like_medians earth_like_raw_hourly)
  have len: "length ?dh = 654" by (simp add: grid_hourly)
  have n0: "?dh ! 0 = - 1166400" and n1: "?dh ! 1 = - 1162800" by (simp_all add: grid_hourly)
  have f0: "?f (- 1166400) = NaN" and f1: "?f (- 1162800) = Fin 1"
    by (simp_all add: interp_at_def)
  have v0: "map ?f ?dh ! 0 = NaN" and v1: "map ?f ?dh ! 1 = Fin 1"
    using len n0 n1 f0 f1 by (simp_all add: nth_map)
  have w0: "map ?neg (map ?f ?dh) ! 0 = NaN" and w1: "map ?neg (map ?f ?dh) ! 1 = Fin (- 1)"
    using len v0 v1 by (simp_all add: nth_map del: map_map)
  have lw: "length (map ?neg (map ?f ?dh)) = 654" using len by simp
  show ?thesis
    using earth_like_raw_hourly r lw v0 w0 v1 w1 by blast
qed

end
